theory Spec2Isabelle
  imports Main
begin

section \<open>The OTP verification function (supabase/functions/pm-verify-otp/index.ts)\<close>

subsection \<open>Data store\<close>

text \<open>
  The two tables the handler touches, each a list of rows in table order. Only the
  columns the handler reads or writes are kept. Timestamps are instants, compared as
  the database compares \<^verbatim>\<open>timestamptz\<close> values.
\<close>

type_synonym timestamp = int

record otp_row =
  otp_id :: string
  otp_email :: string
  otp_code :: string
  otp_verified :: bool
  otp_expires_at :: timestamp
  otp_created_at :: timestamp

record pm_row =
  pm_id :: string
  pm_name :: string
  pm_email :: string
  pm_phone :: "string option"
  pm_specialization :: "string option"
  pm_is_available :: bool

record store =
  otp_verifications :: "otp_row list"
  project_managers :: "pm_row list"

text \<open>
  What the handler takes from its surroundings during one call: the clock
  (\<^verbatim>\<open>new Date()\<close>), the value of \<^verbatim>\<open>crypto.randomUUID()\<close>, the text of the engine's
  \<^verbatim>\<open>TypeError\<close> for destructuring \<^verbatim>\<open>null\<close>, and for each of the three store calls
  whether it goes through. A select that does not go through comes back with
  \<^verbatim>\<open>error\<close> set; an update that does not go through leaves the table as it was.
\<close>

record env =
  now :: timestamp
  randomUUID :: string
  type_error_message :: string
  otp_select_fails :: bool
  update_persists :: bool
  pm_select_fails :: bool

datatype store_op = SelectOtp | UpdateOtp string | SelectPm

fun is_mutation :: "store_op \<Rightarrow> bool" where
  "is_mutation (UpdateOtp i) = True"
| "is_mutation SelectOtp = False"
| "is_mutation SelectPm = False"

subsection \<open>Requests and responses\<close>

text \<open>
  \<open>req_json\<close> is the outcome of \<^verbatim>\<open>await req.json()\<close>: \<open>Inl msg\<close> when it throws (an
  empty body, a body that is not JSON), with the message the catch block reports;
  \<open>Inr None\<close> when the body is the JSON value \<^verbatim>\<open>null\<close>, which the destructuring
  \<^verbatim>\<open>const { email, otp } = ...\<close> cannot take; \<open>Inr (Some b)\<close> for every other JSON
  value, \<open>b\<close> holding its \<open>email\<close> and \<open>otp\<close>. The two fields are strings, as the
  endpoint's callers send them; \<open>None\<close> is a field that is absent (or null).
\<close>

record json_body =
  email :: "string option"
  otp :: "string option"

record request =
  req_method :: string
  req_json :: "string + json_body option"

record pm_profile =
  id :: string
  name :: string
  profile_email :: string
  phone :: "string option"
  specialization :: "string option"
  is_available :: bool

datatype body =
    NoBody
  | ErrorBody string
  | LoginBody bool string pm_profile string

record response =
  status :: nat
  payload :: body

record outcome =
  reply :: response
  store_after :: store
  ops :: "store_op list"

subsection \<open>The three store calls\<close>

definition otp_matches :: "timestamp \<Rightarrow> string \<Rightarrow> string \<Rightarrow> otp_row \<Rightarrow> bool" where
  "otp_matches t em code r =
     (otp_email r = em \<and> otp_code r = code \<and> otp_verified r = False \<and> otp_expires_at r > t)"

text \<open>
  \<^verbatim>\<open>.order("created_at", {ascending: false}).limit(1).single()\<close>: the filtered rows
  newest first, the first of them, and an error when there is none. Rows with equal
  \<open>created_at\<close> keep their table order (the database leaves their order open).
\<close>

definition order_created_desc :: "otp_row list \<Rightarrow> otp_row list" where
  "order_created_desc rows = sort_key (\<lambda>r. - otp_created_at r) rows"

definition single :: "'a list \<Rightarrow> 'a option" where
  "single rows = (case rows of [r] \<Rightarrow> Some r | _ \<Rightarrow> None)"

definition select_otp :: "env \<Rightarrow> store \<Rightarrow> string \<Rightarrow> string \<Rightarrow> otp_row option" where
  "select_otp e st em code =
     (if otp_select_fails e then None
      else single (take 1 (order_created_desc
             (filter (otp_matches (now e) em code) (otp_verifications st)))))"

definition mark_verified :: "string \<Rightarrow> otp_row \<Rightarrow> otp_row" where
  "mark_verified i r = (if otp_id r = i then r\<lparr>otp_verified := True\<rparr> else r)"

definition update_verified :: "env \<Rightarrow> store \<Rightarrow> string \<Rightarrow> store" where
  "update_verified e st i =
     (if update_persists e
      then st\<lparr>otp_verifications := map (mark_verified i) (otp_verifications st)\<rparr>
      else st)"

definition select_pm :: "env \<Rightarrow> store \<Rightarrow> string \<Rightarrow> pm_row option" where
  "select_pm e st em =
     (if pm_select_fails e then None
      else single (filter (\<lambda>p. pm_email p = em) (project_managers st)))"

subsection \<open>The handler\<close>

definition profile_of :: "pm_row \<Rightarrow> pm_profile" where
  "profile_of p =
     \<lparr>id = pm_id p, name = pm_name p, profile_email = pm_email p, phone = pm_phone p,
      specialization = pm_specialization p, is_available = pm_is_available p\<rparr>"

definition json_error :: "nat \<Rightarrow> string \<Rightarrow> response" where
  "json_error code msg = \<lparr>status = code, payload = ErrorBody msg\<rparr>"

text \<open>\<^verbatim>\<open>!email\<close> on a string field: absent or the empty string.\<close>

fun falsy :: "string option \<Rightarrow> bool" where
  "falsy None = True"
| "falsy (Some s) = (s = [])"

text \<open>
  The part of the handler after the input check, for a present, non-empty email and
  code. The reply's headers are the same on every path and are left out.
\<close>

definition verify :: "env \<Rightarrow> store \<Rightarrow> string \<Rightarrow> string \<Rightarrow> outcome" where
  "verify e st em code =
     (case select_otp e st em code of
        None \<Rightarrow>
          \<lparr>reply = json_error 400 ''Invalid or expired OTP'', store_after = st,
           ops = [SelectOtp]\<rparr>
      | Some otpData \<Rightarrow>
          (let st' = update_verified e st (otp_id otpData);
               trace = [SelectOtp, UpdateOtp (otp_id otpData), SelectPm]
           in case select_pm e st' em of
                None \<Rightarrow>
                  \<lparr>reply = json_error 404 ''Project manager not found'', store_after = st',
                   ops = trace\<rparr>
              | Some p \<Rightarrow>
                  \<lparr>reply = \<lparr>status = 200,
                            payload = LoginBody True ''Login successful'' (profile_of p)
                                        (randomUUID e)\<rparr>,
                   store_after = st', ops = trace\<rparr>))"

definition serve :: "env \<Rightarrow> store \<Rightarrow> request \<Rightarrow> outcome" where
  "serve e st req =
     (if req_method req = ''OPTIONS''
      then \<lparr>reply = \<lparr>status = 200, payload = NoBody\<rparr>, store_after = st, ops = []\<rparr>
      else case req_json req of
             Inl msg \<Rightarrow> \<lparr>reply = json_error 500 msg, store_after = st, ops = []\<rparr>
           | Inr None \<Rightarrow>
               \<lparr>reply = json_error 500 (type_error_message e), store_after = st, ops = []\<rparr>
           | Inr (Some b) \<Rightarrow>
               (if falsy (email b) \<or> falsy (otp b)
                then \<lparr>reply = json_error 400 ''Email and OTP are required'',
                      store_after = st, ops = []\<rparr>
                else case (email b, otp b) of
                       (Some em, Some code) \<Rightarrow> verify e st em code
                     | _ \<Rightarrow> \<lparr>reply = json_error 400 ''Email and OTP are required'',
                             store_after = st, ops = []\<rparr>))"

section \<open>The admin analytics aggregator (src/components/admin/AnalyticsCharts.tsx)\<close>

subsection \<open>Inputs\<close>

record service_request =
  sr_id :: string
  sr_title :: string
  sr_status :: string
  sr_priority :: string
  sr_service_type :: "string option"
  sr_created_at :: string
  sr_assigned_pm_id :: "string option"

record project_manager =
  mgr_id :: string
  mgr_name :: string
  mgr_is_available :: bool

subsection \<open>The counting objects\<close>

text \<open>
  Each view counts into a plain object created by \<^verbatim>\<open>{}\<close>. Its own properties are kept
  in creation order. A property value is a number, or the non-empty, non-numeric string
  that \<^verbatim>\<open>+ 1\<close> makes out of a value inherited from \<^verbatim>\<open>Object.prototype\<close>; the text of
  that string is not modelled.
\<close>

datatype jsval = Num nat | NonNum

type_synonym jsobject = "(string \<times> jsval) list"

definition object_prototype_keys :: "string list" where
  "object_prototype_keys =
     [''constructor'', ''__defineGetter__'', ''__defineSetter__'', ''hasOwnProperty'',
      ''__lookupGetter__'', ''__lookupSetter__'', ''isPrototypeOf'',
      ''propertyIsEnumerable'', ''toString'', ''valueOf'', ''__proto__'',
      ''toLocaleString'']"

datatype jsread = Undefined | Own jsval | Inherited

definition read :: "jsobject \<Rightarrow> string \<Rightarrow> jsread" where
  "read obj k =
     (case map_of obj k of
        Some v \<Rightarrow> Own v
      | None \<Rightarrow> (if k \<in> set object_prototype_keys then Inherited else Undefined))"

fun set_own :: "jsobject \<Rightarrow> string \<Rightarrow> jsval \<Rightarrow> jsobject" where
  "set_own [] k v = [(k, v)]"
| "set_own (p # ps) k v = (if fst p = k then (k, v) # ps else p # set_own ps k v)"

text \<open>
  \<^verbatim>\<open>obj[k] = v\<close> for a primitive \<open>v\<close>: the inherited \<^verbatim>\<open>__proto__\<close> setter ignores it, every
  other key becomes (or stays) an own property.
\<close>

definition assign :: "jsobject \<Rightarrow> string \<Rightarrow> jsval \<Rightarrow> jsobject" where
  "assign obj k v = (if k = ''__proto__'' then obj else set_own obj k v)"

text \<open>\<^verbatim>\<open>(x || 0) + 1\<close> for what a read returned.\<close>

fun or_zero_plus_one :: "jsread \<Rightarrow> jsval" where
  "or_zero_plus_one Undefined = Num 1"
| "or_zero_plus_one (Own (Num n)) = Num (n + 1)"
| "or_zero_plus_one (Own NonNum) = NonNum"
| "or_zero_plus_one Inherited = NonNum"

text \<open>\<^verbatim>\<open>obj[k] = (obj[k] || 0) + 1\<close>\<close>

definition count_up :: "jsobject \<Rightarrow> string \<Rightarrow> jsobject" where
  "count_up obj k = assign obj k (or_zero_plus_one (read obj k))"

text \<open>
  \<^verbatim>\<open>Object.entries\<close>: the own properties whose key is an array index (a decimal numeral
  without leading zero, below \<open>2^32 - 1\<close>) in ascending numeric order, then the others
  in creation order.
\<close>

definition is_digit :: "char \<Rightarrow> bool" where
  "is_digit c = (c \<in> set ''0123456789'')"

definition numeric_value :: "string \<Rightarrow> nat" where
  "numeric_value s = foldl (\<lambda>n c. 10 * n + (of_char c - 48)) 0 s"

definition is_array_index :: "string \<Rightarrow> bool" where
  "is_array_index s =
     (case s of
        [] \<Rightarrow> False
      | c # cs \<Rightarrow> list_all is_digit s \<and> (cs = [] \<or> c \<noteq> CHR ''0'')
                 \<and> numeric_value s < 2 ^ 32 - 1)"

definition Object_entries :: "jsobject \<Rightarrow> (string \<times> jsval) list" where
  "Object_entries obj =
     sort_key (\<lambda>p. numeric_value (fst p)) (filter (\<lambda>p. is_array_index (fst p)) obj)
     @ filter (\<lambda>p. \<not> is_array_index (fst p)) obj"

subsection \<open>Status labels\<close>

text \<open>
  \<^verbatim>\<open>r.status.replace(/_/g, ' ').replace(/\b\w/g, c => c.toUpperCase())\<close>. A word
  character is one of \<^verbatim>\<open>[A-Za-z0-9_]\<close>; \<^verbatim>\<open>\b\w\<close> matches a word character that
  follows the start of the string or a character that is not one. Strings are byte
  strings; every character beyond ASCII is made of bytes that are not word characters.
\<close>

definition is_lower :: "char \<Rightarrow> bool" where
  "is_lower c = (c \<in> set ''abcdefghijklmnopqrstuvwxyz'')"

definition is_upper :: "char \<Rightarrow> bool" where
  "is_upper c = (c \<in> set ''ABCDEFGHIJKLMNOPQRSTUVWXYZ'')"

definition is_word :: "char \<Rightarrow> bool" where
  "is_word c = (is_lower c \<or> is_upper c \<or> is_digit c \<or> c = CHR ''_'')"

definition toUpperCase :: "char \<Rightarrow> char" where
  "toUpperCase c =
     (case map_of (zip ''abcdefghijklmnopqrstuvwxyz'' ''ABCDEFGHIJKLMNOPQRSTUVWXYZ'') c of
        None \<Rightarrow> c
      | Some u \<Rightarrow> u)"

definition replace_underscores :: "string \<Rightarrow> string" where
  "replace_underscores s = map (\<lambda>c. if c = CHR ''_'' then CHR '' '' else c) s"

fun capitalize_words :: "bool \<Rightarrow> string \<Rightarrow> string" where
  "capitalize_words prev [] = []"
| "capitalize_words prev (c # cs) =
     (if is_word c \<and> \<not> prev then toUpperCase c else c) # capitalize_words (is_word c) cs"

definition label :: "string \<Rightarrow> string" where
  "label s = capitalize_words False (replace_underscores s)"

subsection \<open>The four views\<close>

text \<open>
  Each result object \<^verbatim>\<open>{name, value}\<close> (or \<^verbatim>\<open>{month, count}\<close>, \<^verbatim>\<open>{name, projects}\<close>) is a
  pair. The month key of the request trend is formatted in the browser's locale; the
  formatting \<open>month_key\<close> of a \<open>created_at\<close> string is a parameter.
\<close>

definition requestTrends ::
  "(string \<Rightarrow> string) \<Rightarrow> service_request list \<Rightarrow> (string \<times> jsval) list" where
  "requestTrends month_key requests =
     (let months = foldl (\<lambda>months r. count_up months (month_key (sr_created_at r))) [] requests;
          entries = Object_entries months
      in drop (length entries - 6) entries)"

definition statusDistribution :: "service_request list \<Rightarrow> (string \<times> jsval) list" where
  "statusDistribution requests =
     Object_entries (foldl (\<lambda>counts r. count_up counts (label (sr_status r))) [] requests)"

definition count_assigned :: "project_manager list \<Rightarrow> jsobject \<Rightarrow> service_request \<Rightarrow> jsobject" where
  "count_assigned projectManagers workload r =
     (case sr_assigned_pm_id r of
        None \<Rightarrow> workload
      | Some i \<Rightarrow>
          (if i = [] then workload
           else (case find (\<lambda>p. mgr_id p = i) projectManagers of
                   None \<Rightarrow> workload
                 | Some pm \<Rightarrow> count_up workload (mgr_name pm))))"

definition pmWorkload ::
  "service_request list \<Rightarrow> project_manager list \<Rightarrow> (string \<times> jsval) list" where
  "pmWorkload requests projectManagers =
     (let seeded = foldl (\<lambda>workload pm. assign workload (mgr_name pm) (Num 0)) [] projectManagers
      in Object_entries (foldl (count_assigned projectManagers) seeded requests))"

text \<open>
  \<^verbatim>\<open>.sort((a, b) => b[1] - a[1])\<close>: while every count is a number this is a stable
  sort by descending count. When a count is not a number the difference is \<open>NaN\<close>,
  the comparator is not consistent and the order is the engine's own; it is the
  parameter \<open>engine_order\<close>.
\<close>

fun is_number :: "jsval \<Rightarrow> bool" where
  "is_number (Num n) = True"
| "is_number NonNum = False"

fun number_of :: "jsval \<Rightarrow> int" where
  "number_of (Num n) = int n"
| "number_of NonNum = 0"

definition sort_by_count_desc ::
  "((string \<times> jsval) list \<Rightarrow> (string \<times> jsval) list)
     \<Rightarrow> (string \<times> jsval) list \<Rightarrow> (string \<times> jsval) list" where
  "sort_by_count_desc engine_order entries =
     (if list_all (\<lambda>p. is_number (snd p)) entries
      then sort_key (\<lambda>p. - number_of (snd p)) entries
      else engine_order entries)"

definition service_key :: "service_request \<Rightarrow> string" where
  "service_key r =
     (case sr_service_type r of
        None \<Rightarrow> ''Unspecified''
      | Some t \<Rightarrow> (if t = [] then ''Unspecified'' else t))"

definition popularServices ::
  "((string \<times> jsval) list \<Rightarrow> (string \<times> jsval) list)
     \<Rightarrow> service_request list \<Rightarrow> (string \<times> jsval) list" where
  "popularServices engine_order requests =
     take 6 (sort_by_count_desc engine_order
       (Object_entries (foldl (\<lambda>counts r. count_up counts (service_key r)) [] requests)))"

subsection \<open>The views as the specification words them\<close>

text \<open>
  The humanized label in the specification's words: every underscore becomes a space,
  and the first character of every word is put in upper case, a word being a run of
  letters and digits. Each character is looked at together with the one before it (a
  space before the first); characters are told apart by their code.
\<close>

definition small_letter :: "char \<Rightarrow> bool" where
  "small_letter c = (97 \<le> (of_char c :: nat) \<and> (of_char c :: nat) \<le> 122)"

definition capital_letter :: "char \<Rightarrow> bool" where
  "capital_letter c = (65 \<le> (of_char c :: nat) \<and> (of_char c :: nat) \<le> 90)"

definition digit_char :: "char \<Rightarrow> bool" where
  "digit_char c = (48 \<le> (of_char c :: nat) \<and> (of_char c :: nat) \<le> 57)"

definition alphanumeric :: "char \<Rightarrow> bool" where
  "alphanumeric c = (small_letter c \<or> capital_letter c \<or> digit_char c)"

definition capital_of :: "char \<Rightarrow> char" where
  "capital_of c = (if small_letter c then char_of (of_char c - (32::nat)) else c)"

definition humanized_char :: "char \<Rightarrow> char \<Rightarrow> char" where
  "humanized_char before c =
     (if c = CHR ''_'' then CHR '' ''
      else if alphanumeric c \<and> \<not> alphanumeric before then capital_of c
      else c)"

definition humanized :: "string \<Rightarrow> string" where
  "humanized s = map2 humanized_char (CHR '' '' # s) s"

text \<open>
  The status distribution in the specification's words: one bucket per distinct label,
  in order of first appearance, each with the number of requests bearing that label.
\<close>

fun first_appearance :: "'a list \<Rightarrow> 'a list" where
  "first_appearance [] = []"
| "first_appearance (x # xs) = x # filter (\<lambda>y. y \<noteq> x) (first_appearance xs)"

definition tally :: "string list \<Rightarrow> (string \<times> jsval) list" where
  "tally labels = map (\<lambda>l. (l, Num (count_list labels l))) (first_appearance labels)"

definition spec_statusDistribution :: "service_request list \<Rightarrow> (string \<times> jsval) list" where
  "spec_statusDistribution requests = tally (map (\<lambda>r. humanized (sr_status r)) requests)"

text \<open>The number of requests whose \<open>assigned_pm_id\<close> is a given project manager's id.\<close>

definition assigned_count :: "service_request list \<Rightarrow> project_manager \<Rightarrow> nat" where
  "assigned_count requests pm =
     length (filter (\<lambda>r. sr_assigned_pm_id r = Some (mgr_id pm)) requests)"

section \<open>Concrete data\<close>

text \<open>A small store, clock and requests on which the results below are evaluated.\<close>

definition pm_asha :: pm_row where
  "pm_asha =
     \<lparr>pm_id = ''pm-1'', pm_name = ''Asha'', pm_email = ''asha@example.com'',
      pm_phone = None, pm_specialization = Some ''Web'', pm_is_available = True\<rparr>"

definition otp_older :: otp_row where
  "otp_older =
     \<lparr>otp_id = ''otp-1'', otp_email = ''asha@example.com'', otp_code = ''111111'',
      otp_verified = False, otp_expires_at = 600, otp_created_at = 0\<rparr>"

definition otp_newer :: otp_row where
  "otp_newer =
     \<lparr>otp_id = ''otp-2'', otp_email = ''asha@example.com'', otp_code = ''222222'',
      otp_verified = False, otp_expires_at = 700, otp_created_at = 100\<rparr>"

definition otp_orphan :: otp_row where
  "otp_orphan =
     \<lparr>otp_id = ''otp-3'', otp_email = ''nobody@example.com'', otp_code = ''333333'',
      otp_verified = False, otp_expires_at = 700, otp_created_at = 50\<rparr>"

definition store0 :: store where
  "store0 =
     \<lparr>otp_verifications = [otp_older, otp_newer, otp_orphan], project_managers = [pm_asha]\<rparr>"

definition env0 :: env where
  "env0 =
     \<lparr>now = 300, randomUUID = ''0b5e7a52-6f0c-4d8e-9a57-2f1c3d4e5f60'',
      type_error_message = ''Cannot destructure property email of null'',
      otp_select_fails = False, update_persists = True, pm_select_fails = False\<rparr>"

definition env_late :: env where
  "env_late = env0\<lparr>now := 600\<rparr>"

definition store_used :: store where
  "store_used = store0\<lparr>otp_verifications := [otp_older\<lparr>otp_verified := True\<rparr>]\<rparr>"

definition post :: "string option \<Rightarrow> string option \<Rightarrow> request" where
  "post em code =
     \<lparr>req_method = ''POST'', req_json = Inr (Some \<lparr>email = em, otp = code\<rparr>)\<rparr>"

definition post_null :: request where
  "post_null = \<lparr>req_method = ''POST'', req_json = Inr None\<rparr>"

definition post_unparsable :: request where
  "post_unparsable = \<lparr>req_method = ''POST'', req_json = Inl ''Unexpected end of JSON input''\<rparr>"

definition otp_resent :: otp_row where
  "otp_resent =
     \<lparr>otp_id = ''otp-4'', otp_email = ''asha@example.com'', otp_code = ''222222'',
      otp_verified = False, otp_expires_at = 650, otp_created_at = 40\<rparr>"

definition store_resend :: store where
  "store_resend =
     \<lparr>otp_verifications = [otp_older, otp_resent, otp_newer], project_managers = [pm_asha]\<rparr>"

definition request_with :: "string \<Rightarrow> string option \<Rightarrow> service_request" where
  "request_with st pm =
     \<lparr>sr_id = ''req'', sr_title = ''Website'', sr_status = st, sr_priority = ''medium'',
      sr_service_type = None, sr_created_at = ''2024-01-15T10:00:00Z'',
      sr_assigned_pm_id = pm\<rparr>"

definition mgr_asha :: project_manager where
  "mgr_asha = \<lparr>mgr_id = ''pm-1'', mgr_name = ''Asha'', mgr_is_available = True\<rparr>"

definition mgr_ravi :: project_manager where
  "mgr_ravi = \<lparr>mgr_id = ''pm-2'', mgr_name = ''Ravi'', mgr_is_available = True\<rparr>"

definition mgr_asha2 :: project_manager where
  "mgr_asha2 = \<lparr>mgr_id = ''pm-3'', mgr_name = ''Asha'', mgr_is_available = False\<rparr>"

section \<open>Properties of the OTP verification function\<close>

subsection \<open>The store calls\<close>

lemma single_take1:
  "single (take (Suc 0) xs) = (case xs of [] \<Rightarrow> None | x # _ \<Rightarrow> Some x)"
  by (cases xs) (simp_all add: single_def)

lemma select_otp_None:
  "(select_otp e st em code = None) =
     (otp_select_fails e \<or> filter (otp_matches (now e) em code) (otp_verifications st) = [])"
proof -
  let ?xs = "filter (otp_matches (now e) em code) (otp_verifications st)"
  have "(order_created_desc ?xs = []) = (?xs = [])"
    unfolding order_created_desc_def by (metis length_sort length_0_conv)
  then show ?thesis
    by (cases "order_created_desc ?xs") (simp_all add: select_otp_def single_def)
qed

text \<open>The row the lookup returns is a stored, matching row, and no matching row is newer.\<close>

lemma select_otp_Some:
  assumes "select_otp e st em code = Some r"
  shows "r \<in> set (otp_verifications st) \<and> otp_matches (now e) em code r
         \<and> (\<forall>x \<in> set (otp_verifications st). otp_matches (now e) em code x
               \<longrightarrow> otp_created_at x \<le> otp_created_at r)"
proof -
  let ?xs = "filter (otp_matches (now e) em code) (otp_verifications st)"
  let ?ys = "order_created_desc ?xs"
  from assms obtain ys where ys: "?ys = r # ys"
    by (auto simp: select_otp_def single_take1 split: if_splits list.splits)
  have set: "set ?ys = set ?xs"
    by (simp add: order_created_desc_def)
  have srt: "sorted (map (\<lambda>r. - otp_created_at r) ?ys)"
    by (simp add: order_created_desc_def)
  have "r \<in> set ?xs" using ys set by (metis list.set_intros(1))
  moreover have "\<forall>x \<in> set ?xs. otp_created_at x \<le> otp_created_at r"
  proof
    fix x assume "x \<in> set ?xs"
    then have "x \<in> set (r # ys)" using set ys by simp
    with srt ys show "otp_created_at x \<le> otp_created_at r" by auto
  qed
  ultimately show ?thesis by auto
qed

lemma select_otp_exists:
  assumes "\<not> otp_select_fails e" "r \<in> set (otp_verifications st)"
      "otp_matches (now e) em code r"
  shows "\<exists>r'. select_otp e st em code = Some r'"
proof -
  have "filter (otp_matches (now e) em code) (otp_verifications st) \<noteq> []"
    using assms(2,3) by (auto simp: filter_empty_conv)
  with assms(1) have "select_otp e st em code \<noteq> None" by (simp add: select_otp_None)
  then show ?thesis by auto
qed

lemma filter_unique_key:
  "distinct (map f xs) \<Longrightarrow> x \<in> set xs \<Longrightarrow> filter (\<lambda>y. f y = f x) xs = [x]"
proof (induction xs)
  case Nil then show ?case by simp
next
  case (Cons a xs)
  show ?case
  proof (cases "a = x")
    case True
    from Cons.prems True have "f x \<notin> f ` set xs" by simp
    then have "\<forall>y \<in> set xs. f y \<noteq> f x" by (metis imageI)
    then have "filter (\<lambda>y. f y = f x) xs = []" by (simp add: filter_empty_conv)
    with True show ?thesis by simp
  next
    case False
    with Cons.prems have "x \<in> set xs" "f a \<noteq> f x" by force+
    with Cons show ?thesis by simp
  qed
qed

lemma select_pm_update [simp]: "select_pm e (update_verified e' st i) em = select_pm e st em"
  by (simp add: select_pm_def update_verified_def)

lemma select_pm_unique:
  assumes "\<not> pm_select_fails e" "p \<in> set (project_managers st)"
      "distinct (map pm_email (project_managers st))"
  shows "select_pm e st (pm_email p) = Some p"
  using assms filter_unique_key [of pm_email "project_managers st" p]
  by (simp add: select_pm_def single_def)

lemma select_pm_absent:
  assumes "\<forall>p \<in> set (project_managers st). pm_email p \<noteq> em"
  shows "select_pm e st em = None"
proof -
  have "filter (\<lambda>p. pm_email p = em) (project_managers st) = []"
    using assms by (simp add: filter_empty_conv)
  then show ?thesis by (simp add: select_pm_def single_def)
qed

lemma serve_verify:
  assumes "req_method req \<noteq> ''OPTIONS''"
      and "req_json req = Inr (Some \<lparr>email = Some em, otp = Some code\<rparr>)"
      and "em \<noteq> []" "code \<noteq> []"
  shows "serve e st req = verify e st em code"
  using assms by (simp add: serve_def)

lemma verify_not_rejected:
  "select_otp e st em code = Some r \<Longrightarrow> status (reply (verify e st em code)) \<noteq> 400"
  by (simp add: verify_def Let_def json_error_def split: option.splits)

lemma marked_in_update:
  assumes "update_persists e" "r \<in> set (otp_verifications st)"
  shows "r\<lparr>otp_verified := True\<rparr> \<in> set (otp_verifications (update_verified e st (otp_id r)))"
proof -
  have "mark_verified (otp_id r) r = r\<lparr>otp_verified := True\<rparr>" by (simp add: mark_verified_def)
  with assms show ?thesis by (force simp: update_verified_def)
qed

lemmas concrete_defs =
  env0_def env_late_def store0_def store_used_def store_resend_def post_def pm_asha_def
  otp_older_def otp_newer_def otp_orphan_def otp_resent_def otp_matches_def

lemmas handler_defs =
  serve_def verify_def select_otp_def select_pm_def update_verified_def mark_verified_def
  order_created_desc_def single_def json_error_def profile_of_def Let_def

subsection \<open>Successful login\<close>

text \<open>
  C1. Take a request that carries a non-empty email and code, a store in which some OTP
  row has that email and code, is unverified and expires strictly after the current
  instant, and in which a project manager row has that email (emails identify project
  managers, so no two rows share one). When the three store calls go through, the reply
  is 200 with \<open>success: true\<close>, the message "Login successful", the six fields of that
  project manager and the token \<^verbatim>\<open>crypto.randomUUID()\<close> returned; and the matched row
  (the newest matching one) is in the store afterwards with \<open>verified = true\<close>.
\<close>

theorem valid_otp_logs_in:
  assumes "req_method req \<noteq> ''OPTIONS''"
      and "req_json req = Inr (Some \<lparr>email = Some em, otp = Some code\<rparr>)"
      and "em \<noteq> []" and "code \<noteq> []"
      and "\<not> otp_select_fails e" and "update_persists e" and "\<not> pm_select_fails e"
      and "r \<in> set (otp_verifications st)" and "otp_matches (now e) em code r"
      and "p \<in> set (project_managers st)" and "pm_email p = em"
      and "distinct (map pm_email (project_managers st))"
  shows "\<exists>r'. r' \<in> set (otp_verifications st) \<and> otp_matches (now e) em code r'
           \<and> otp_created_at r \<le> otp_created_at r'
           \<and> reply (serve e st req) =
               \<lparr>status = 200,
                payload = LoginBody True ''Login successful''
                  \<lparr>id = pm_id p, name = pm_name p, profile_email = pm_email p,
                   phone = pm_phone p, specialization = pm_specialization p,
                   is_available = pm_is_available p\<rparr>
                  (randomUUID e)\<rparr>
           \<and> r'\<lparr>otp_verified := True\<rparr> \<in> set (otp_verifications (store_after (serve e st req)))"
proof -
  obtain r' where sel: "select_otp e st em code = Some r'"
    using select_otp_exists assms(5,8,9) by blast
  note props = select_otp_Some [OF sel]
  have pm: "select_pm e st em = Some p"
    using select_pm_unique [OF assms(7,10,12)] assms(11) by simp
  have out: "serve e st req = verify e st em code"
    by (rule serve_verify [OF assms(1-4)])
  have "reply (verify e st em code) =
          \<lparr>status = 200,
           payload = LoginBody True ''Login successful''
             \<lparr>id = pm_id p, name = pm_name p, profile_email = pm_email p,
              phone = pm_phone p, specialization = pm_specialization p,
              is_available = pm_is_available p\<rparr>
             (randomUUID e)\<rparr>"
    by (simp add: verify_def sel pm Let_def profile_of_def)
  moreover have "store_after (verify e st em code) = update_verified e st (otp_id r')"
    by (simp add: verify_def sel pm Let_def)
  moreover have
    "r'\<lparr>otp_verified := True\<rparr> \<in> set (otp_verifications (update_verified e st (otp_id r')))"
    using marked_in_update assms(6) props by blast
  ultimately show ?thesis using props assms(8,9) out by auto
qed

theorem valid_otp_logs_in_witness:
  "\<exists>r'. r' \<in> set (otp_verifications store0)
      \<and> otp_matches (now env0) ''asha@example.com'' ''222222'' r'
      \<and> otp_created_at otp_newer \<le> otp_created_at r'
      \<and> reply (serve env0 store0 (post (Some ''asha@example.com'') (Some ''222222''))) =
           \<lparr>status = 200,
            payload = LoginBody True ''Login successful''
              \<lparr>id = ''pm-1'', name = ''Asha'', profile_email = ''asha@example.com'',
               phone = None, specialization = Some ''Web'', is_available = True\<rparr>
              ''0b5e7a52-6f0c-4d8e-9a57-2f1c3d4e5f60''\<rparr>
      \<and> r'\<lparr>otp_verified := True\<rparr>
           \<in> set (otp_verifications
                  (store_after (serve env0 store0 (post (Some ''asha@example.com'') (Some ''222222'')))))"
proof -
  have "req_method (post (Some ''asha@example.com'') (Some ''222222'')) \<noteq> ''OPTIONS''"
    and "req_json (post (Some ''asha@example.com'') (Some ''222222''))
           = Inr (Some \<lparr>email = Some ''asha@example.com'', otp = Some ''222222''\<rparr>)"
    and "''asha@example.com'' \<noteq> []" and "''222222'' \<noteq> []"
    and "\<not> otp_select_fails env0" and "update_persists env0" and "\<not> pm_select_fails env0"
    and "otp_newer \<in> set (otp_verifications store0)"
    and "otp_matches (now env0) ''asha@example.com'' ''222222'' otp_newer"
    and "pm_asha \<in> set (project_managers store0)" and "pm_email pm_asha = ''asha@example.com''"
    and "distinct (map pm_email (project_managers store0))"
    by (simp_all add: concrete_defs)
  from valid_otp_logs_in [OF this]
  have "\<exists>r'. r' \<in> set (otp_verifications store0)
      \<and> otp_matches (now env0) ''asha@example.com'' ''222222'' r'
      \<and> otp_created_at otp_newer \<le> otp_created_at r'
      \<and> reply (serve env0 store0 (post (Some ''asha@example.com'') (Some ''222222''))) =
           \<lparr>status = 200,
            payload = LoginBody True ''Login successful''
              \<lparr>id = pm_id pm_asha, name = pm_name pm_asha, profile_email = pm_email pm_asha,
               phone = pm_phone pm_asha, specialization = pm_specialization pm_asha,
               is_available = pm_is_available pm_asha\<rparr>
              (randomUUID env0)\<rparr>
      \<and> r'\<lparr>otp_verified := True\<rparr>
           \<in> set (otp_verifications
                  (store_after (serve env0 store0 (post (Some ''asha@example.com'') (Some ''222222'')))))" .
  moreover have "pm_id pm_asha = ''pm-1''" "pm_name pm_asha = ''Asha''"
    "pm_email pm_asha = ''asha@example.com''" "pm_phone pm_asha = None"
    "pm_specialization pm_asha = Some ''Web''" "pm_is_available pm_asha = True"
    "randomUUID env0 = ''0b5e7a52-6f0c-4d8e-9a57-2f1c3d4e5f60''"
    by (simp_all add: pm_asha_def env0_def)
  ultimately show ?thesis by simp
qed

subsection \<open>Rejected codes\<close>

text \<open>
  C2. When no stored OTP row has the submitted email and code while being unverified and
  unexpired, the reply is 400 with the body \<open>{error: "Invalid or expired OTP"}\<close>, the
  store is left as it was, and only the lookup was made. The reply is this one value
  whatever the cause: a wrong code, an expired code, a used code or no code at all.
\<close>

theorem no_active_otp_rejected:
  assumes "req_method req \<noteq> ''OPTIONS''"
      and "req_json req = Inr (Some \<lparr>email = Some em, otp = Some code\<rparr>)"
      and "em \<noteq> []" and "code \<noteq> []"
      and "\<forall>r \<in> set (otp_verifications st). \<not> otp_matches (now e) em code r"
  shows "reply (serve e st req) = \<lparr>status = 400, payload = ErrorBody ''Invalid or expired OTP''\<rparr>
         \<and> store_after (serve e st req) = st
         \<and> ops (serve e st req) = [SelectOtp]"
proof -
  have "filter (otp_matches (now e) em code) (otp_verifications st) = []"
    using assms(5) by (simp add: filter_empty_conv)
  then have "select_otp e st em code = None" by (simp add: select_otp_None)
  then show ?thesis
    by (simp add: serve_verify [OF assms(1-4)] verify_def json_error_def)
qed

text \<open>The four causes in turn: wrong code, expired code, used code, no code sent.\<close>

theorem no_active_otp_rejected_witness:
  "reply (serve env0 store0 (post (Some ''asha@example.com'') (Some ''999999'')))
     = \<lparr>status = 400, payload = ErrorBody ''Invalid or expired OTP''\<rparr>
   \<and> reply (serve env_late store0 (post (Some ''asha@example.com'') (Some ''111111'')))
     = \<lparr>status = 400, payload = ErrorBody ''Invalid or expired OTP''\<rparr>
   \<and> reply (serve env0 store_used (post (Some ''asha@example.com'') (Some ''111111'')))
     = \<lparr>status = 400, payload = ErrorBody ''Invalid or expired OTP''\<rparr>
   \<and> reply (serve env0 store0 (post (Some ''zed@example.com'') (Some ''111111'')))
     = \<lparr>status = 400, payload = ErrorBody ''Invalid or expired OTP''\<rparr>"
  using no_active_otp_rejected
          [of "post (Some ''asha@example.com'') (Some ''999999'')"
              "''asha@example.com''" "''999999''" store0 env0]
        no_active_otp_rejected
          [of "post (Some ''asha@example.com'') (Some ''111111'')"
              "''asha@example.com''" "''111111''" store0 env_late]
        no_active_otp_rejected
          [of "post (Some ''asha@example.com'') (Some ''111111'')"
              "''asha@example.com''" "''111111''" store_used env0]
        no_active_otp_rejected
          [of "post (Some ''zed@example.com'') (Some ''111111'')"
              "''zed@example.com''" "''111111''" store0 env0]
  by (simp add: concrete_defs)

subsection \<open>Several live codes for one email\<close>

text \<open>
  C3, as the specification words it: with several unexpired, unverified rows for one
  email, only the newest can be verified and the code of an older one is refused. The
  lookup filters on the code before it orders, so this fails: in \<open>store0\<close> the row
  \<open>otp_older\<close> is older than \<open>otp_newer\<close>, both are live for the same email, and
  submitting the older code logs in and marks the older row verified; it still does
  after the newer code has been used.
\<close>

theorem older_code_still_verifies:
  "otp_older \<in> set (otp_verifications store0)
   \<and> otp_newer \<in> set (otp_verifications store0)
   \<and> otp_email otp_older = otp_email otp_newer
   \<and> otp_created_at otp_older < otp_created_at otp_newer
   \<and> otp_matches (now env0) ''asha@example.com'' ''111111'' otp_older
   \<and> otp_matches (now env0) ''asha@example.com'' ''222222'' otp_newer
   \<and> status (reply (serve env0 store0 (post (Some ''asha@example.com'') (Some ''111111'')))) = 200
   \<and> otp_older\<lparr>otp_verified := True\<rparr>
        \<in> set (otp_verifications
               (store_after (serve env0 store0 (post (Some ''asha@example.com'') (Some ''111111'')))))
   \<and> status (reply (serve env0
        (store_after (serve env0 store0 (post (Some ''asha@example.com'') (Some ''222222''))))
        (post (Some ''asha@example.com'') (Some ''111111'')))) = 200"
  by (simp add: concrete_defs handler_defs)

text \<open>
  C3, amended. When the ids of the OTP rows are pairwise distinct, the row a request
  verifies is the newest among the unexpired, unverified rows that have both the
  submitted email and the submitted code. Whenever such a row exists the request is
  not refused as invalid, that newest row is the one the update names, and the table
  afterwards is the old one with \<open>verified\<close> set on that row alone. Every row with
  another code is still there unchanged, and a row for the same email that was live
  under its own code is still accepted when that code is submitted next.
\<close>

theorem present_otp_selects_newest_of_same_code:
  assumes "req_method req \<noteq> ''OPTIONS''"
      and "req_json req = Inr (Some \<lparr>email = Some em, otp = Some code\<rparr>)"
      and "em \<noteq> []" and "code \<noteq> []"
      and "\<not> otp_select_fails e" and "update_persists e"
      and "distinct (map otp_id (otp_verifications st))"
      and "r \<in> set (otp_verifications st)" and "otp_matches (now e) em code r"
  shows "\<exists>r'. r' \<in> set (otp_verifications st) \<and> otp_matches (now e) em code r'
           \<and> (\<forall>x \<in> set (otp_verifications st).
                  otp_matches (now e) em code x \<longrightarrow> otp_created_at x \<le> otp_created_at r')
           \<and> status (reply (serve e st req)) \<noteq> 400
           \<and> ops (serve e st req) = [SelectOtp, UpdateOtp (otp_id r'), SelectPm]
           \<and> otp_verifications (store_after (serve e st req))
                = map (\<lambda>x. if x = r' then x\<lparr>otp_verified := True\<rparr> else x) (otp_verifications st)
           \<and> (\<forall>x \<in> set (otp_verifications st).
                  otp_code x \<noteq> code
                    \<longrightarrow> x \<in> set (otp_verifications (store_after (serve e st req))))
           \<and> (\<forall>x \<in> set (otp_verifications st). \<forall>req'.
                  otp_code x \<noteq> code \<and> otp_code x \<noteq> []
                  \<and> otp_matches (now e) em (otp_code x) x
                  \<and> req_method req' \<noteq> ''OPTIONS''
                  \<and> req_json req' = Inr (Some \<lparr>email = Some em, otp = Some (otp_code x)\<rparr>)
                    \<longrightarrow> status (reply (serve e (store_after (serve e st req)) req')) \<noteq> 400)"
proof -
  let ?rows = "otp_verifications st"
  obtain r' where sel: "select_otp e st em code = Some r'"
    using select_otp_exists assms(5,8,9) by blast
  note props = select_otp_Some [OF sel]
  have out: "serve e st req = verify e st em code"
    by (rule serve_verify [OF assms(1-4)])
  let ?after = "store_after (verify e st em code)"
  have st: "status (reply (verify e st em code)) \<noteq> 400"
    by (rule verify_not_rejected [OF sel])
  have tr: "ops (verify e st em code) = [SelectOtp, UpdateOtp (otp_id r'), SelectPm]"
    by (simp add: verify_def sel Let_def split: option.splits)
  have "otp_verifications ?after = map (mark_verified (otp_id r')) ?rows"
    using assms(6) by (simp add: verify_def sel Let_def update_verified_def split: option.splits)
  also have "\<dots> = map (\<lambda>x. if x = r' then x\<lparr>otp_verified := True\<rparr> else x) ?rows"
  proof (rule map_cong [OF refl])
    fix x assume "x \<in> set ?rows"
    then have "(otp_id x = otp_id r') = (x = r')"
      using assms(7) props by (auto simp: distinct_map dest: inj_onD)
    then show "mark_verified (otp_id r') x = (if x = r' then x\<lparr>otp_verified := True\<rparr> else x)"
      by (auto simp: mark_verified_def)
  qed
  finally have tab: "otp_verifications ?after
                       = map (\<lambda>x. if x = r' then x\<lparr>otp_verified := True\<rparr> else x) ?rows" .
  have code': "otp_code r' = code" using props by (simp add: otp_matches_def)
  have keep: "\<forall>x \<in> set ?rows. otp_code x \<noteq> code \<longrightarrow> x \<in> set (otp_verifications ?after)"
  proof (intro ballI impI)
    fix x assume x: "x \<in> set ?rows" and c: "otp_code x \<noteq> code"
    then have "x \<noteq> r'" using code' by auto
    with x have "x \<in> (\<lambda>x. if x = r' then x\<lparr>otp_verified := True\<rparr> else x) ` set ?rows"
      by (metis (mono_tags, lifting) image_iff)
    then show "x \<in> set (otp_verifications ?after)" by (simp add: tab)
  qed
  have again: "\<forall>x \<in> set ?rows. \<forall>req'.
                  otp_code x \<noteq> code \<and> otp_code x \<noteq> []
                  \<and> otp_matches (now e) em (otp_code x) x
                  \<and> req_method req' \<noteq> ''OPTIONS''
                  \<and> req_json req' = Inr (Some \<lparr>email = Some em, otp = Some (otp_code x)\<rparr>)
                    \<longrightarrow> status (reply (serve e ?after req')) \<noteq> 400"
  proof (intro ballI allI impI)
    fix x and req' :: request
    assume x: "x \<in> set ?rows"
       and h: "otp_code x \<noteq> code \<and> otp_code x \<noteq> []
                  \<and> otp_matches (now e) em (otp_code x) x
                  \<and> req_method req' \<noteq> ''OPTIONS''
                  \<and> req_json req' = Inr (Some \<lparr>email = Some em, otp = Some (otp_code x)\<rparr>)"
    from x h keep have "x \<in> set (otp_verifications ?after)" by blast
    then obtain y where "select_otp e ?after em (otp_code x) = Some y"
      using select_otp_exists [OF assms(5)] h by blast
    then have "status (reply (verify e ?after em (otp_code x))) \<noteq> 400"
      by (rule verify_not_rejected)
    moreover have "serve e ?after req' = verify e ?after em (otp_code x)"
      using h assms(3) by (intro serve_verify) auto
    ultimately show "status (reply (serve e ?after req')) \<noteq> 400" by simp
  qed
  show ?thesis
    using props st tr tab keep again unfolding out by blast
qed

text \<open>
  In \<open>store_resend\<close> the code 222222 was sent twice; the later of the two rows is the one
  verified, the earlier one and the row with code 111111 are left as they were, and
  111111 is accepted afterwards.
\<close>

theorem present_otp_selects_newest_of_same_code_witness:
  "otp_verifications
      (store_after (serve env0 store_resend (post (Some ''asha@example.com'') (Some ''222222''))))
     = [otp_older, otp_resent, otp_newer\<lparr>otp_verified := True\<rparr>]
   \<and> ops (serve env0 store_resend (post (Some ''asha@example.com'') (Some ''222222'')))
     = [SelectOtp, UpdateOtp ''otp-2'', SelectPm]
   \<and> status (reply (serve env0
        (store_after (serve env0 store_resend (post (Some ''asha@example.com'') (Some ''222222''))))
        (post (Some ''asha@example.com'') (Some ''111111'')))) \<noteq> 400"
proof -
  let ?req = "post (Some ''asha@example.com'') (Some ''222222'')"
  have "req_method ?req \<noteq> ''OPTIONS''"
    and "req_json ?req = Inr (Some \<lparr>email = Some ''asha@example.com'', otp = Some ''222222''\<rparr>)"
    and "''asha@example.com'' \<noteq> []" and "''222222'' \<noteq> []"
    and "\<not> otp_select_fails env0" and "update_persists env0"
    and "distinct (map otp_id (otp_verifications store_resend))"
    and "otp_resent \<in> set (otp_verifications store_resend)"
    and "otp_matches (now env0) ''asha@example.com'' ''222222'' otp_resent"
    by (simp_all add: concrete_defs)
  from present_otp_selects_newest_of_same_code [OF this]
  obtain r' where mem: "r' \<in> set (otp_verifications store_resend)"
    and mat: "otp_matches (now env0) ''asha@example.com'' ''222222'' r'"
    and new: "\<forall>x \<in> set (otp_verifications store_resend).
                otp_matches (now env0) ''asha@example.com'' ''222222'' x
                  \<longrightarrow> otp_created_at x \<le> otp_created_at r'"
    and tr: "ops (serve env0 store_resend ?req) = [SelectOtp, UpdateOtp (otp_id r'), SelectPm]"
    and tab: "otp_verifications (store_after (serve env0 store_resend ?req))
                = map (\<lambda>x. if x = r' then x\<lparr>otp_verified := True\<rparr> else x)
                    (otp_verifications store_resend)"
    and again: "\<forall>x \<in> set (otp_verifications store_resend). \<forall>req'.
                  otp_code x \<noteq> ''222222'' \<and> otp_code x \<noteq> []
                  \<and> otp_matches (now env0) ''asha@example.com'' (otp_code x) x
                  \<and> req_method req' \<noteq> ''OPTIONS''
                  \<and> req_json req' = Inr (Some \<lparr>email = Some ''asha@example.com'', otp = Some (otp_code x)\<rparr>)
                    \<longrightarrow> status (reply (serve env0 (store_after (serve env0 store_resend ?req)) req')) \<noteq> 400"
    by blast
  have "otp_created_at otp_newer \<le> otp_created_at r'"
    using new by (simp add: concrete_defs)
  with mem mat have r': "r' = otp_newer"
    by (auto simp: concrete_defs)
  have "otp_verifications (store_after (serve env0 store_resend ?req))
          = [otp_older, otp_resent, otp_newer\<lparr>otp_verified := True\<rparr>]"
    unfolding tab r' by (simp add: store_resend_def otp_older_def otp_resent_def otp_newer_def)
  moreover have "ops (serve env0 store_resend ?req) = [SelectOtp, UpdateOtp ''otp-2'', SelectPm]"
    unfolding tr r' by (simp add: otp_newer_def)
  moreover have "status (reply (serve env0 (store_after (serve env0 store_resend ?req))
                   (post (Some ''asha@example.com'') (Some ''111111'')))) \<noteq> 400"
  proof -
    have "otp_older \<in> set (otp_verifications store_resend)" by (simp add: store_resend_def)
    moreover have "otp_code otp_older \<noteq> ''222222'' \<and> otp_code otp_older \<noteq> []
        \<and> otp_matches (now env0) ''asha@example.com'' (otp_code otp_older) otp_older
        \<and> req_method (post (Some ''asha@example.com'') (Some ''111111'')) \<noteq> ''OPTIONS''
        \<and> req_json (post (Some ''asha@example.com'') (Some ''111111''))
            = Inr (Some \<lparr>email = Some ''asha@example.com'', otp = Some (otp_code otp_older)\<rparr>)"
      by (simp add: concrete_defs)
    ultimately show ?thesis using again by blast
  qed
  ultimately show ?thesis by simp
qed

subsection \<open>A valid code for an email without a project manager\<close>

text \<open>
  C4. When the submitted email and code match a live OTP row but no project manager row
  has that email, the reply is 404 with the body \<open>{error: "Project manager not found"}\<close>;
  the trace shows the update of the matched row before the project manager lookup, the
  matched row is in the store afterwards with \<open>verified = true\<close>, and the store is not
  the one the request found.
\<close>

theorem valid_otp_without_pm_is_consumed:
  assumes "req_method req \<noteq> ''OPTIONS''"
      and "req_json req = Inr (Some \<lparr>email = Some em, otp = Some code\<rparr>)"
      and "em \<noteq> []" and "code \<noteq> []"
      and "\<not> otp_select_fails e" and "update_persists e"
      and "r \<in> set (otp_verifications st)" and "otp_matches (now e) em code r"
      and "\<forall>p \<in> set (project_managers st). pm_email p \<noteq> em"
  shows "\<exists>r'. r' \<in> set (otp_verifications st) \<and> otp_matches (now e) em code r'
           \<and> otp_created_at r \<le> otp_created_at r'
           \<and> reply (serve e st req) =
               \<lparr>status = 404, payload = ErrorBody ''Project manager not found''\<rparr>
           \<and> ops (serve e st req) = [SelectOtp, UpdateOtp (otp_id r'), SelectPm]
           \<and> r'\<lparr>otp_verified := True\<rparr> \<in> set (otp_verifications (store_after (serve e st req)))
           \<and> store_after (serve e st req) \<noteq> st"
proof -
  obtain r' where sel: "select_otp e st em code = Some r'"
    using select_otp_exists assms(5,7,8) by blast
  note props = select_otp_Some [OF sel]
  have out: "serve e st req = verify e st em code"
    by (rule serve_verify [OF assms(1-4)])
  have pm: "select_pm e st em = None" by (rule select_pm_absent [OF assms(9)])
  have rep: "reply (verify e st em code) =
          \<lparr>status = 404, payload = ErrorBody ''Project manager not found''\<rparr>"
    by (simp add: verify_def sel pm Let_def json_error_def)
  have tr: "ops (verify e st em code) = [SelectOtp, UpdateOtp (otp_id r'), SelectPm]"
    by (simp add: verify_def sel pm Let_def)
  have sa: "store_after (verify e st em code) = update_verified e st (otp_id r')"
    by (simp add: verify_def sel pm Let_def)
  have mem:
    "r'\<lparr>otp_verified := True\<rparr> \<in> set (otp_verifications (update_verified e st (otp_id r')))"
    using marked_in_update assms(6) props by blast
  have "update_verified e st (otp_id r') \<noteq> st"
  proof
    assume eq: "update_verified e st (otp_id r') = st"
    have "\<forall>x \<in> set (map (mark_verified (otp_id r')) (otp_verifications st)).
            otp_id x = otp_id r' \<longrightarrow> otp_verified x"
      by (auto simp: mark_verified_def)
    moreover have "otp_verifications st = map (mark_verified (otp_id r')) (otp_verifications st)"
      using eq assms(6)
      by (metis update_verified_def store.select_convs(1) store.surjective store.update_convs(1))
    ultimately have "otp_verified r'" using props by metis
    then show False using props by (simp add: otp_matches_def)
  qed
  then show ?thesis using props assms(7,8) out rep tr sa mem by auto
qed

theorem valid_otp_without_pm_is_consumed_witness:
  "\<exists>r'. r' \<in> set (otp_verifications store0)
      \<and> otp_matches (now env0) ''nobody@example.com'' ''333333'' r'
      \<and> otp_created_at otp_orphan \<le> otp_created_at r'
      \<and> reply (serve env0 store0 (post (Some ''nobody@example.com'') (Some ''333333''))) =
           \<lparr>status = 404, payload = ErrorBody ''Project manager not found''\<rparr>
      \<and> ops (serve env0 store0 (post (Some ''nobody@example.com'') (Some ''333333'')))
           = [SelectOtp, UpdateOtp (otp_id r'), SelectPm]
      \<and> r'\<lparr>otp_verified := True\<rparr>
           \<in> set (otp_verifications
                  (store_after (serve env0 store0 (post (Some ''nobody@example.com'') (Some ''333333'')))))
      \<and> store_after (serve env0 store0 (post (Some ''nobody@example.com'') (Some ''333333'')))
           \<noteq> store0"
proof -
  have "req_method (post (Some ''nobody@example.com'') (Some ''333333'')) \<noteq> ''OPTIONS''"
    and "req_json (post (Some ''nobody@example.com'') (Some ''333333''))
           = Inr (Some \<lparr>email = Some ''nobody@example.com'', otp = Some ''333333''\<rparr>)"
    and "''nobody@example.com'' \<noteq> []" and "''333333'' \<noteq> []"
    and "\<not> otp_select_fails env0" and "update_persists env0"
    and "otp_orphan \<in> set (otp_verifications store0)"
    and "otp_matches (now env0) ''nobody@example.com'' ''333333'' otp_orphan"
    and "\<forall>p \<in> set (project_managers store0). pm_email p \<noteq> ''nobody@example.com''"
    by (simp_all add: concrete_defs)
  then show ?thesis by (rule valid_otp_without_pm_is_consumed)
qed

subsection \<open>Missing input\<close>

text \<open>
  C5, as the specification words it: every request in which \<open>email\<close> or \<open>otp\<close> is missing
  is answered 400 "Email and OTP are required". A request whose body is the JSON value
  \<^verbatim>\<open>null\<close> has neither field, and so has one whose body is not JSON; the destructuring
  of the first and \<^verbatim>\<open>req.json()\<close> of the second throw, and the catch block answers 500
  with the error's message.
\<close>

theorem null_body_is_internal_error:
  "req_json post_null = Inr None
   \<and> reply (serve env0 store0 post_null)
       = \<lparr>status = 500, payload = ErrorBody ''Cannot destructure property email of null''\<rparr>
   \<and> reply (serve env0 store0 post_unparsable)
       = \<lparr>status = 500, payload = ErrorBody ''Unexpected end of JSON input''\<rparr>"
  by (simp add: post_null_def post_unparsable_def env0_def serve_def json_error_def)

text \<open>
  C5, amended. A request that does not carry both a non-empty \<open>email\<close> and a non-empty
  \<open>otp\<close> makes the handler perform no store call at all: the trace of store operations
  is empty and the store is unchanged. It is answered 400 "Email and OTP are required"
  when its body is a JSON value other than \<^verbatim>\<open>null\<close>, and 500 with the error's message
  when its body is \<^verbatim>\<open>null\<close> or is not JSON.
\<close>

theorem missing_field_bad_request:
  assumes "req_method req \<noteq> ''OPTIONS''"
      and "\<forall>b. req_json req = Inr (Some b) \<longrightarrow> falsy (email b) \<or> falsy (otp b)"
  shows "reply (serve e st req) =
           (case req_json req of
              Inl msg \<Rightarrow> \<lparr>status = 500, payload = ErrorBody msg\<rparr>
            | Inr None \<Rightarrow> \<lparr>status = 500, payload = ErrorBody (type_error_message e)\<rparr>
            | Inr (Some b) \<Rightarrow>
                \<lparr>status = 400, payload = ErrorBody ''Email and OTP are required''\<rparr>)
         \<and> ops (serve e st req) = []
         \<and> store_after (serve e st req) = st"
  using assms by (auto simp: serve_def json_error_def split: sum.splits option.splits)

theorem missing_field_bad_request_witness:
  "reply (serve env0 store0 (post (Some ''asha@example.com'') (Some [])))
     = \<lparr>status = 400, payload = ErrorBody ''Email and OTP are required''\<rparr>
   \<and> ops (serve env0 store0 (post (Some ''asha@example.com'') (Some []))) = []
   \<and> store_after (serve env0 store0 (post (Some ''asha@example.com'') (Some []))) = store0
   \<and> reply (serve env0 store0 (post None (Some ''111111'')))
     = \<lparr>status = 400, payload = ErrorBody ''Email and OTP are required''\<rparr>
   \<and> ops (serve env0 store0 (post None (Some ''111111''))) = []
   \<and> reply (serve env0 store0 post_null)
     = \<lparr>status = 500, payload = ErrorBody ''Cannot destructure property email of null''\<rparr>
   \<and> ops (serve env0 store0 post_null) = []"
  using missing_field_bad_request
          [of "post (Some ''asha@example.com'') (Some [])" env0 store0]
        missing_field_bad_request [of "post None (Some ''111111'')" env0 store0]
        missing_field_bad_request [of post_null env0 store0]
  by (simp add: post_def post_null_def env0_def)

subsection \<open>The one mutation\<close>

text \<open>
  C6. The outcome of the update is never inspected: for every environment, store and
  request the reply and the trace of store calls are the same whether the update
  persists or not. On every input the handler issues at most one mutating store call,
  never changes the project manager table, and leaves the store either untouched or
  with exactly the update of the looked-up row applied.
\<close>

theorem mark_verified_fire_and_forget:
  "reply (serve (e\<lparr>update_persists := True\<rparr>) st req)
     = reply (serve (e\<lparr>update_persists := False\<rparr>) st req)
   \<and> ops (serve (e\<lparr>update_persists := True\<rparr>) st req)
     = ops (serve (e\<lparr>update_persists := False\<rparr>) st req)
   \<and> store_after (serve (e\<lparr>update_persists := False\<rparr>) st req) = st
   \<and> length (filter is_mutation (ops (serve e st req))) \<le> 1
   \<and> project_managers (store_after (serve e st req)) = project_managers st
   \<and> (store_after (serve e st req) = st
       \<or> (\<exists>i. filter is_mutation (ops (serve e st req)) = [UpdateOtp i]
              \<and> store_after (serve e st req)
                  = st\<lparr>otp_verifications := map (mark_verified i) (otp_verifications st)\<rparr>))"
  by (auto simp: serve_def verify_def select_otp_def select_pm_def update_verified_def Let_def
           split: sum.splits option.splits)

theorem mark_verified_fire_and_forget_witness:
  "reply (serve (env0\<lparr>update_persists := True\<rparr>) store0
            (post (Some ''asha@example.com'') (Some ''222222'')))
     = reply (serve (env0\<lparr>update_persists := False\<rparr>) store0
            (post (Some ''asha@example.com'') (Some ''222222'')))
   \<and> status (reply (serve (env0\<lparr>update_persists := False\<rparr>) store0
            (post (Some ''asha@example.com'') (Some ''222222'')))) = 200
   \<and> store_after (serve (env0\<lparr>update_persists := False\<rparr>) store0
            (post (Some ''asha@example.com'') (Some ''222222''))) = store0
   \<and> filter is_mutation (ops (serve env0 store0
            (post (Some ''asha@example.com'') (Some ''222222'')))) = [UpdateOtp ''otp-2'']"
  using mark_verified_fire_and_forget
          [of env0 store0 "post (Some ''asha@example.com'') (Some ''222222'')"]
  by (simp add: concrete_defs handler_defs)

section \<open>Properties of the admin analytics aggregator\<close>

subsection \<open>Labels\<close>

lemma toUpperCase_lower: "is_lower c \<Longrightarrow> \<not> is_lower (toUpperCase c) \<and> toUpperCase c \<noteq> CHR ''_''"
  unfolding is_lower_def toUpperCase_def by auto

lemma toUpperCase_other: "\<not> is_lower c \<Longrightarrow> toUpperCase c = c"
  unfolding is_lower_def toUpperCase_def by (simp split: option.splits)

lemma label_head: "label s = c # cs \<Longrightarrow> \<not> is_lower c \<and> c \<noteq> CHR ''_''"
proof (cases s)
  case Nil
  assume "label s = c # cs" with Nil show ?thesis by (simp add: label_def replace_underscores_def)
next
  case (Cons a as)
  assume l: "label s = c # cs"
  show ?thesis
  proof (cases "a = CHR ''_''")
    case True
    with l Cons have "c = CHR '' ''"
      by (simp add: label_def replace_underscores_def is_word_def is_lower_def is_upper_def is_digit_def)
    then show ?thesis by (simp add: is_lower_def)
  next
    case False
    with l Cons have c: "c = (if is_word a then toUpperCase a else a)"
      by (simp add: label_def replace_underscores_def)
    show ?thesis
    proof (cases "is_lower a")
      case True
      then have "is_word a" by (simp add: is_word_def)
      with c True show ?thesis using toUpperCase_lower by simp
    next
      case nl: False
      with c have "c = a" using toUpperCase_other by simp
      with nl False show ?thesis by simp
    qed
  qed
qed

lemma prototype_key_heads:
  "list_all (\<lambda>k. case k of [] \<Rightarrow> False | c # _ \<Rightarrow> is_lower c \<or> c = CHR ''_'')
     object_prototype_keys"
  by (simp add: object_prototype_keys_def is_lower_def)

lemma label_not_inherited: "label s \<notin> set object_prototype_keys"
proof
  assume "label s \<in> set object_prototype_keys"
  with prototype_key_heads
  have "case label s of [] \<Rightarrow> False | c # _ \<Rightarrow> is_lower c \<or> c = CHR ''_''"
    by (simp add: list_all_iff)
  then obtain c cs where "label s = c # cs" "is_lower c \<or> c = CHR ''_''"
    by (cases "label s") auto
  then show False using label_head by blast
qed

lemma label_not_proto: "label s \<noteq> ''__proto__''"
  using label_not_inherited [of s] by (auto simp: object_prototype_keys_def)


subsection \<open>The label is the humanized status\<close>

lemma in_set_by_code: "(c \<in> set cs) = ((of_char c :: nat) \<in> set (map of_char cs))"
  by (induction cs) auto

lemma lower_codes: "map of_char ''abcdefghijklmnopqrstuvwxyz'' = [97..<123::nat]"
  by (simp add: upt_rec_numeral)

lemma upper_codes: "map of_char ''ABCDEFGHIJKLMNOPQRSTUVWXYZ'' = [65..<91::nat]"
  by (simp add: upt_rec_numeral)

lemma digit_codes: "map of_char ''0123456789'' = [48..<58::nat]"
  by (simp add: upt_rec_numeral)

lemma is_lower_small_letter: "is_lower c = small_letter c"
  unfolding is_lower_def small_letter_def
  by (subst in_set_by_code, subst lower_codes, simp only: set_upt atLeastLessThan_iff) arith

lemma is_upper_capital_letter: "is_upper c = capital_letter c"
  unfolding is_upper_def capital_letter_def
  by (subst in_set_by_code, subst upper_codes, simp only: set_upt atLeastLessThan_iff) arith

lemma is_digit_digit_char: "is_digit c = digit_char c"
  unfolding is_digit_def digit_char_def
  by (subst in_set_by_code, subst digit_codes, simp only: set_upt atLeastLessThan_iff) arith

lemma is_word_alphanumeric: "is_word c = (alphanumeric c \<or> c = CHR ''_'')"
  by (simp add: is_word_def alphanumeric_def is_lower_small_letter is_upper_capital_letter
                is_digit_digit_char)

lemma not_alphanumeric_space [simp]: "\<not> alphanumeric (CHR '' '')"
  by (simp add: alphanumeric_def small_letter_def capital_letter_def digit_char_def)

lemma not_alphanumeric_underscore [simp]: "\<not> alphanumeric (CHR ''_'')"
  by (simp add: alphanumeric_def small_letter_def capital_letter_def digit_char_def)

lemma toUpperCase_code:
  "is_lower c \<Longrightarrow> (of_char (toUpperCase c) :: nat) = of_char c - 32"
  unfolding is_lower_def toUpperCase_def by auto

lemma toUpperCase_capital_of: "toUpperCase c = capital_of c"
proof (cases "is_lower c")
  case True
  then have s: "small_letter c" by (simp add: is_lower_small_letter)
  then have "(of_char c :: nat) - 32 < 256" unfolding small_letter_def by arith
  then have "(of_char (char_of ((of_char c :: nat) - 32)) :: nat) = of_char c - 32" by simp
  with toUpperCase_code [OF True]
  have "(of_char (toUpperCase c) :: nat) = of_char (char_of ((of_char c :: nat) - 32))" by simp
  then have "toUpperCase c = char_of ((of_char c :: nat) - 32)" by (rule of_char_eqI)
  with s show ?thesis by (simp add: capital_of_def)
next
  case False
  then have "\<not> small_letter c" by (simp add: is_lower_small_letter)
  with False show ?thesis by (simp add: capital_of_def toUpperCase_other)
qed

lemma capitalize_words_humanized:
  "capitalize_words (alphanumeric before) (replace_underscores s)
     = map2 humanized_char (before # s) s"
proof (induction s arbitrary: before)
  case Nil
  then show ?case by (simp add: replace_underscores_def)
next
  case (Cons c cs)
  have tl: "capitalize_words (alphanumeric c) (replace_underscores cs)
              = map2 humanized_char (c # cs) cs"
    by (rule Cons.IH)
  show ?case
  proof (cases "c = CHR ''_''")
    case True
    have "\<not> is_word (CHR '' '')" by (simp add: is_word_alphanumeric)
    with True tl show ?thesis
      by (simp add: replace_underscores_def humanized_char_def)
  next
    case False
    then have "is_word c = alphanumeric c" by (simp add: is_word_alphanumeric)
    with False tl show ?thesis
      by (simp add: replace_underscores_def humanized_char_def toUpperCase_capital_of)
  qed
qed

lemma label_humanized: "label s = humanized s"
  using capitalize_words_humanized [of "CHR '' ''" s] by (simp add: label_def humanized_def)

subsection \<open>Objects built from a list of distinct keys\<close>

lemma set_own_absent:
  "k \<notin> fst ` set obj \<Longrightarrow> set_own obj k v = obj @ [(k, v)]"
  by (induction obj) auto

lemma set_own_keyed:
  "distinct (map key xs) \<Longrightarrow> x \<in> set xs \<Longrightarrow>
     set_own (map (\<lambda>y. (key y, g y)) xs) (key x) v
       = map (\<lambda>y. (key y, if key y = key x then v else g y)) xs"
proof (induction xs)
  case Nil then show ?case by simp
next
  case (Cons a xs)
  show ?case
  proof (cases "key a = key x")
    case True
    with Cons.prems have "\<forall>y \<in> set xs. key y \<noteq> key x" by (metis distinct.simps(2) imageI list.simps(9) list.set_map)
    then have "map (\<lambda>y. (key y, if key y = key x then v else g y)) xs = map (\<lambda>y. (key y, g y)) xs"
      by (simp cong: map_cong)
    with True show ?thesis by simp
  next
    case False
    with Cons.prems have "x \<in> set xs" by auto
    with Cons False show ?thesis by simp
  qed
qed

lemma map_of_keyed:
  "distinct (map key xs) \<Longrightarrow> x \<in> set xs \<Longrightarrow>
     map_of (map (\<lambda>y. (key y, g y)) xs) (key x) = Some (g x)"
proof (induction xs)
  case Nil then show ?case by simp
next
  case (Cons a xs)
  show ?case
  proof (cases "a = x")
    case True then show ?thesis by simp
  next
    case False
    with Cons.prems have "x \<in> set xs" "key a \<noteq> key x"
      by (auto simp: image_iff)
    with Cons show ?thesis by simp
  qed
qed

lemma map_of_keyed_absent:
  "k \<notin> key ` set xs \<Longrightarrow> map_of (map (\<lambda>y. (key y, g y)) xs) k = None"
  by (induction xs) auto

subsection \<open>First appearance\<close>

lemma set_first_appearance [simp]: "set (first_appearance xs) = set xs"
  by (induction xs) auto

lemma distinct_first_appearance [simp]: "distinct (first_appearance xs)"
  by (induction xs) auto

lemma first_appearance_snoc:
  "first_appearance (xs @ [x]) =
     (if x \<in> set xs then first_appearance xs else first_appearance xs @ [x])"
  by (induction xs) auto

subsection \<open>Counting plain keys\<close>

lemma count_up_seen:
  assumes "k \<in> set ks" "k \<noteq> ''__proto__''"
  shows "count_up (tally ks) k = tally (ks @ [k])"
proof -
  have d: "distinct (map (\<lambda>y. y) (first_appearance ks))" by simp
  have m: "k \<in> set (first_appearance ks)" using assms(1) by simp
  have rd: "read (tally ks) k = Own (Num (count_list ks k))"
    using map_of_keyed [OF d m, of "\<lambda>l. Num (count_list ks l)"]
    by (simp add: read_def tally_def)
  have "count_up (tally ks) k = set_own (tally ks) k (Num (count_list ks k + 1))"
    using assms(2) by (simp add: count_up_def rd assign_def)
  also have "\<dots> = map (\<lambda>y. (y, if y = k then Num (count_list ks k + 1) else Num (count_list ks y)))
                      (first_appearance ks)"
    using set_own_keyed [OF d m, of "\<lambda>l. Num (count_list ks l)"] by (simp add: tally_def)
  also have "\<dots> = tally (ks @ [k])"
    using assms(1) by (simp add: tally_def first_appearance_snoc cong: map_cong)
  finally show ?thesis .
qed

lemma count_up_new:
  assumes "k \<notin> set ks" "k \<notin> set object_prototype_keys"
  shows "count_up (tally ks) k = tally (ks @ [k])"
proof -
  have np: "k \<noteq> ''__proto__''" using assms(2) by (auto simp: object_prototype_keys_def)
  have a: "k \<notin> (\<lambda>y. y) ` set (first_appearance ks)" using assms(1) by simp
  have rd: "read (tally ks) k = Undefined"
    using map_of_keyed_absent [OF a, of "\<lambda>l. Num (count_list ks l)"] assms(2)
    by (simp add: read_def tally_def)
  have "k \<notin> fst ` set (tally ks)" using assms(1) by (auto simp: tally_def)
  then have "count_up (tally ks) k = tally ks @ [(k, Num 1)]"
    using np by (simp add: count_up_def rd assign_def set_own_absent)
  also have "\<dots> = tally (ks @ [k])"
    using assms(1) by (auto simp: tally_def first_appearance_snoc)
  finally show ?thesis .
qed

lemma counts_plain:
  "\<forall>k \<in> set ks. k \<notin> set object_prototype_keys \<Longrightarrow> foldl count_up [] ks = tally ks"
proof (induction ks rule: rev_induct)
  case Nil
  then show ?case by (simp add: tally_def)
next
  case (snoc k ks)
  then have ih: "foldl count_up [] ks = tally ks" by simp
  from snoc.prems have plain: "k \<notin> set object_prototype_keys" by simp
  then have np: "k \<noteq> ''__proto__''" by (auto simp: object_prototype_keys_def)
  show ?case
    using ih count_up_seen [of k ks] count_up_new [of k ks] plain np by (cases "k \<in> set ks") simp_all
qed

lemma status_counts:
  "foldl (\<lambda>counts r. count_up counts (label (sr_status r))) [] requests
     = tally (map (\<lambda>r. label (sr_status r)) requests)"
proof -
  have "foldl (\<lambda>counts r. count_up counts (label (sr_status r))) [] requests
          = foldl count_up [] (map (\<lambda>r. label (sr_status r)) requests)"
    by (simp add: foldl_map)
  also have "\<dots> = tally (map (\<lambda>r. label (sr_status r)) requests)"
    by (rule counts_plain) (auto simp: label_not_inherited)
  finally show ?thesis .
qed


subsection \<open>Object.entries\<close>

lemma Object_entries_plain:
  "\<forall>p \<in> set obj. \<not> is_array_index (fst p) \<Longrightarrow> Object_entries obj = obj"
proof -
  assume a: "\<forall>p \<in> set obj. \<not> is_array_index (fst p)"
  then have "filter (\<lambda>p. is_array_index (fst p)) obj = []" by (simp add: filter_empty_conv)
  moreover from a have "filter (\<lambda>p. \<not> is_array_index (fst p)) obj = obj" by (simp add: filter_id_conv)
  ultimately show ?thesis by (simp add: Object_entries_def)
qed

lemma set_Object_entries [simp]: "set (Object_entries obj) = set obj"
  by (auto simp: Object_entries_def)

lemma sum_list_insort_key:
  "sum_list (map g (insort_key f x xs)) = (g x :: nat) + sum_list (map g xs)"
  by (induction xs) auto

lemma sum_list_sort_key:
  "sum_list (map g (sort_key f xs)) = (sum_list (map g xs) :: nat)"
  by (induction xs) (auto simp: sum_list_insort_key)

lemma sum_list_filter_split:
  "sum_list (map g (filter P xs)) + sum_list (map g (filter (\<lambda>x. \<not> P x) xs))
     = (sum_list (map g xs) :: nat)"
  by (induction xs) auto

lemma sum_list_Object_entries:
  "sum_list (map g (Object_entries obj)) = (sum_list (map g obj) :: nat)"
  by (simp add: Object_entries_def sum_list_sort_key sum_list_filter_split)

lemma length_Object_entries [simp]: "length (Object_entries obj) = length obj"
  using sum_list_Object_entries [of "\<lambda>_. 1" obj] by (simp add: sum_list_triv)

lemma count_total: "sum_list (map (count_list ls) (first_appearance ls)) = length ls"
proof -
  have "sum_list (map (count_list ls) (first_appearance ls)) = sum (count_list ls) (set ls)"
    by (simp add: sum_list_distinct_conv_sum_set)
  also have "\<dots> = length ls" by (rule sum_count_set) simp_all
  finally show ?thesis .
qed

subsection \<open>The status distribution\<close>

lemmas analytics_defs =
  statusDistribution_def spec_statusDistribution_def tally_def request_with_def label_def
  replace_underscores_def is_word_def is_lower_def is_upper_def is_digit_def toUpperCase_def
  count_up_def read_def assign_def object_prototype_keys_def Object_entries_def
  is_array_index_def numeric_value_def

text \<open>
  C7, as the specification words it: for every list of requests the buckets come in
  order of first appearance. \<^verbatim>\<open>Object.entries\<close> lists array-index keys first, in numeric
  order, so this fails for labels such as \<open>2\<close> and \<open>1\<close>: the statuses \<open>2\<close>, \<open>pending\<close>,
  \<open>1\<close> give the buckets \<open>1\<close>, \<open>2\<close>, \<open>Pending\<close>.
\<close>

theorem numeric_labels_come_first:
  "statusDistribution [request_with ''2'' None, request_with ''pending'' None, request_with ''1'' None]
     = [(''1'', Num 1), (''2'', Num 1), (''Pending'', Num 1)]
   \<and> spec_statusDistribution [request_with ''2'' None, request_with ''pending'' None, request_with ''1'' None]
     = [(''2'', Num 1), (''Pending'', Num 1), (''1'', Num 1)]"
  by (simp add: analytics_defs label_humanized [symmetric])

text \<open>
  In general the view is the first-appearance tally as \<^verbatim>\<open>Object.entries\<close> rearranges it:
  the buckets whose label is an array index first, in numeric order, then the others in
  order of first appearance.
\<close>

lemma status_distribution_entries:
  "statusDistribution requests = Object_entries (spec_statusDistribution requests)"
  by (simp add: statusDistribution_def spec_statusDistribution_def status_counts
                label_humanized [symmetric])

text \<open>
  C7, amended. For every list of requests none of whose humanized status labels is an
  array index (none of \<open>Pending\<close>, \<open>In Progress\<close>, \<open>Completed\<close>, \<open>Cancelled\<close> is), the
  status distribution has one bucket per distinct humanized label (every underscore
  replaced by a space, the first character of every word in upper case), in order of
  first appearance, each with the number of requests bearing that label. The statuses
  \<open>pending\<close>, \<open>pending\<close>, \<open>completed\<close> give \<open>Pending\<close> with 2 and \<open>Completed\<close> with 1.
\<close>

theorem status_distribution_first_appearance:
  assumes "\<forall>r \<in> set requests. \<not> is_array_index (humanized (sr_status r))"
  shows "statusDistribution requests = spec_statusDistribution requests"
proof -
  have "\<forall>p \<in> set (tally (map (\<lambda>r. humanized (sr_status r)) requests)). \<not> is_array_index (fst p)"
    using assms by (auto simp: tally_def)
  then have "Object_entries (spec_statusDistribution requests) = spec_statusDistribution requests"
    unfolding spec_statusDistribution_def by (rule Object_entries_plain)
  then show ?thesis by (simp add: status_distribution_entries)
qed

text \<open>
  The specification's example, and one with statuses of two words: \<open>in_progress\<close> is
  counted under \<open>In Progress\<close>.
\<close>

theorem status_distribution_first_appearance_witness:
  "statusDistribution
     [request_with ''pending'' None, request_with ''pending'' None, request_with ''completed'' None]
     = [(''Pending'', Num 2), (''Completed'', Num 1)]
   \<and> statusDistribution
     [request_with ''in_progress'' None, request_with ''cancelled'' None,
      request_with ''in_progress'' None]
     = [(''In Progress'', Num 2), (''Cancelled'', Num 1)]
   \<and> humanized ''in_progress'' = ''In Progress''"
proof -
  have l: "humanized ''pending'' = ''Pending''" "humanized ''completed'' = ''Completed''"
    "humanized ''in_progress'' = ''In Progress''" "humanized ''cancelled'' = ''Cancelled''"
    by (simp_all add: label_humanized [symmetric] label_def replace_underscores_def is_word_def
                      is_lower_def is_upper_def is_digit_def toUpperCase_def)
  have a: "\<forall>r \<in> set [request_with ''pending'' None, request_with ''pending'' None,
                       request_with ''completed'' None].
             \<not> is_array_index (humanized (sr_status r))"
    by (simp add: request_with_def l is_array_index_def is_digit_def)
  have b: "\<forall>r \<in> set [request_with ''in_progress'' None, request_with ''cancelled'' None,
                       request_with ''in_progress'' None].
             \<not> is_array_index (humanized (sr_status r))"
    by (simp add: request_with_def l is_array_index_def is_digit_def)
  show ?thesis
    using status_distribution_first_appearance [OF a] status_distribution_first_appearance [OF b]
    by (simp add: spec_statusDistribution_def tally_def request_with_def l)
qed

lemma distinct_keys_Object_entries:
  assumes "distinct (map fst obj)"
  shows "distinct (map fst (Object_entries obj))"
proof -
  from assms have d: "distinct obj" and i: "inj_on fst (set obj)"
    by (simp_all add: distinct_map)
  have "distinct (Object_entries obj)"
    using d by (auto simp: Object_entries_def)
  moreover have "inj_on fst (set (Object_entries obj))" using i by simp
  ultimately show ?thesis by (simp add: distinct_map)
qed

lemma distinct_keys_tally: "distinct (map fst (tally ls))"
  by (simp add: tally_def comp_def)

lemma status_values_total:
  "\<exists>ns. map snd (statusDistribution requests) = map Num ns \<and> sum_list ns = length requests"
proof -
  let ?ls = "map (\<lambda>r. label (sr_status r)) requests"
  let ?g = "\<lambda>p. count_list ?ls (fst p)"
  have sd: "statusDistribution requests = Object_entries (tally ?ls)"
    by (simp add: statusDistribution_def status_counts)
  have "\<forall>p \<in> set (Object_entries (tally ?ls)). snd p = Num (?g p)"
    by (auto simp: tally_def)
  then have "map snd (Object_entries (tally ?ls)) = map Num (map ?g (Object_entries (tally ?ls)))"
    by (simp cong: map_cong)
  moreover have "sum_list (map ?g (Object_entries (tally ?ls))) = length requests"
  proof -
    have "sum_list (map ?g (Object_entries (tally ?ls))) = sum_list (map ?g (tally ?ls))"
      by (rule sum_list_Object_entries)
    also have "\<dots> = sum_list (map (count_list ?ls) (first_appearance ?ls))"
      by (simp add: tally_def comp_def)
    also have "\<dots> = length ?ls" by (rule count_total)
    finally show ?thesis by simp
  qed
  ultimately show ?thesis using sd by metis
qed


subsection \<open>The project manager workload\<close>

lemma seeded_workload:
  assumes "distinct (map mgr_name pms)" "\<forall>pm \<in> set pms. mgr_name pm \<noteq> ''__proto__''"
  shows "foldl (\<lambda>workload pm. assign workload (mgr_name pm) (Num 0)) [] pms
           = map (\<lambda>pm. (mgr_name pm, Num 0)) pms"
  using assms
proof (induction pms rule: rev_induct)
  case Nil then show ?case by simp
next
  case (snoc pm pms)
  then have ih: "foldl (\<lambda>workload pm. assign workload (mgr_name pm) (Num 0)) [] pms
                   = map (\<lambda>pm. (mgr_name pm, Num 0)) pms" by simp
  from snoc.prems have "mgr_name pm \<notin> fst ` set (map (\<lambda>pm. (mgr_name pm, Num 0)) pms)"
    by (auto simp: image_iff)
  then have "set_own (map (\<lambda>pm. (mgr_name pm, Num 0)) pms) (mgr_name pm) (Num 0)
               = map (\<lambda>pm. (mgr_name pm, Num 0)) pms @ [(mgr_name pm, Num 0)]"
    by (rule set_own_absent)
  with snoc.prems ih show ?case by (simp add: assign_def)
qed

lemma count_assigned_step:
  assumes dn: "distinct (map mgr_name pms)" and di: "distinct (map mgr_id pms)"
      and ne: "\<forall>pm \<in> set pms. mgr_id pm \<noteq> [] \<and> mgr_name pm \<noteq> ''__proto__''"
  shows "count_assigned pms (map (\<lambda>pm. (mgr_name pm, Num (assigned_count rs pm))) pms) r
           = map (\<lambda>pm. (mgr_name pm, Num (assigned_count (rs @ [r]) pm))) pms"
proof (cases "sr_assigned_pm_id r")
  case None
  then show ?thesis by (simp add: count_assigned_def assigned_count_def)
next
  case (Some i)
  show ?thesis
  proof (cases "i = []")
    case True
    with Some ne have "\<forall>pm \<in> set pms. assigned_count (rs @ [r]) pm = assigned_count rs pm"
      by (auto simp: assigned_count_def)
    with Some True show ?thesis by (simp add: count_assigned_def cong: map_cong)
  next
    case False
    show ?thesis
    proof (cases "find (\<lambda>p. mgr_id p = i) pms")
      case None
      then have "\<forall>pm \<in> set pms. mgr_id pm \<noteq> i" by (simp add: find_None_iff)
      with Some have "\<forall>pm \<in> set pms. assigned_count (rs @ [r]) pm = assigned_count rs pm"
        by (auto simp: assigned_count_def)
      with Some False None show ?thesis by (simp add: count_assigned_def cong: map_cong)
    next
      case (Some pm0)
      then have in0: "pm0 \<in> set pms" and id0: "mgr_id pm0 = i"
        by (auto simp: find_Some_iff)
      let ?w = "map (\<lambda>pm. (mgr_name pm, Num (assigned_count rs pm))) pms"
      have np: "mgr_name pm0 \<noteq> ''__proto__''" using ne in0 by simp
      have rd: "read ?w (mgr_name pm0) = Own (Num (assigned_count rs pm0))"
        using map_of_keyed [OF dn in0, of "\<lambda>pm. Num (assigned_count rs pm)"]
        by (simp add: read_def)
      have "count_up ?w (mgr_name pm0)
              = set_own ?w (mgr_name pm0) (Num (assigned_count rs pm0 + 1))"
        using np by (simp add: count_up_def rd assign_def)
      also have "\<dots> = map (\<lambda>pm. (mgr_name pm,
                     if mgr_name pm = mgr_name pm0 then Num (assigned_count rs pm0 + 1)
                     else Num (assigned_count rs pm))) pms"
        by (rule set_own_keyed [OF dn in0])
      also have "\<dots> = map (\<lambda>pm. (mgr_name pm, Num (assigned_count (rs @ [r]) pm))) pms"
      proof (rule map_cong [OF refl])
        fix pm assume pm: "pm \<in> set pms"
        have same_name: "(mgr_name pm = mgr_name pm0) = (pm = pm0)"
          using dn pm in0 by (auto simp: distinct_map dest: inj_onD)
        have same_id: "(mgr_id pm = i) = (pm = pm0)"
          using di pm in0 id0 by (auto simp: distinct_map dest: inj_onD)
        show "(mgr_name pm,
                 if mgr_name pm = mgr_name pm0 then Num (assigned_count rs pm0 + 1)
                 else Num (assigned_count rs pm))
              = (mgr_name pm, Num (assigned_count (rs @ [r]) pm))"
          using same_name same_id \<open>sr_assigned_pm_id r = Some i\<close>
          by (auto simp: assigned_count_def)
      qed
      finally show ?thesis
        using \<open>sr_assigned_pm_id r = Some i\<close> False Some by (simp add: count_assigned_def)
    qed
  qed
qed

lemma workload_counts:
  assumes dn: "distinct (map mgr_name pms)" and di: "distinct (map mgr_id pms)"
      and ne: "\<forall>pm \<in> set pms. mgr_id pm \<noteq> [] \<and> mgr_name pm \<noteq> ''__proto__''"
  shows "foldl (count_assigned pms) (map (\<lambda>pm. (mgr_name pm, Num 0)) pms) rs
           = map (\<lambda>pm. (mgr_name pm, Num (assigned_count rs pm))) pms"
proof (induction rs rule: rev_induct)
  case Nil
  then show ?case by (simp add: assigned_count_def)
next
  case (snoc r rs)
  then show ?case using count_assigned_step [OF dn di ne] by simp
qed

text \<open>
  C8, amended. For every list of requests and every list of project managers whose
  names are pairwise distinct and are not \<^verbatim>\<open>__proto__\<close>, and whose ids are pairwise
  distinct and not empty, the workload view has one entry per project manager, idle
  ones included, and the entry of each carries the number of requests whose
  \<open>assigned_pm_id\<close> is that manager's id.
\<close>

theorem pm_workload_counts_each_pm:
  assumes "distinct (map mgr_name projectManagers)"
      and "distinct (map mgr_id projectManagers)"
      and "\<forall>pm \<in> set projectManagers. mgr_id pm \<noteq> [] \<and> mgr_name pm \<noteq> ''__proto__''"
  shows "length (pmWorkload requests projectManagers) = length projectManagers
         \<and> (\<forall>pm \<in> set projectManagers.
               (mgr_name pm, Num (assigned_count requests pm))
                 \<in> set (pmWorkload requests projectManagers))"
proof -
  have "pmWorkload requests projectManagers
          = Object_entries (map (\<lambda>pm. (mgr_name pm, Num (assigned_count requests pm))) projectManagers)"
    using assms by (simp add: pmWorkload_def seeded_workload workload_counts)
  then show ?thesis by auto
qed

lemmas workload_defs =
  pmWorkload_def count_assigned_def assigned_count_def request_with_def mgr_asha_def
  mgr_ravi_def mgr_asha2_def count_up_def read_def assign_def object_prototype_keys_def
  Object_entries_def is_array_index_def numeric_value_def is_digit_def

theorem pm_workload_counts_each_pm_witness:
  "length (pmWorkload [request_with ''pending'' (Some ''pm-1''), request_with ''completed'' None]
             [mgr_asha, mgr_ravi]) = 2
   \<and> (mgr_name mgr_asha, Num 1)
        \<in> set (pmWorkload [request_with ''pending'' (Some ''pm-1''), request_with ''completed'' None]
                 [mgr_asha, mgr_ravi])
   \<and> (mgr_name mgr_ravi, Num 0)
        \<in> set (pmWorkload [request_with ''pending'' (Some ''pm-1''), request_with ''completed'' None]
                 [mgr_asha, mgr_ravi])"
proof -
  have "distinct (map mgr_name [mgr_asha, mgr_ravi])"
    and "distinct (map mgr_id [mgr_asha, mgr_ravi])"
    and "\<forall>pm \<in> set [mgr_asha, mgr_ravi]. mgr_id pm \<noteq> [] \<and> mgr_name pm \<noteq> ''__proto__''"
    by (simp_all add: mgr_asha_def mgr_ravi_def)
  from pm_workload_counts_each_pm [OF this,
         of "[request_with ''pending'' (Some ''pm-1''), request_with ''completed'' None]"]
  show ?thesis by (simp add: assigned_count_def request_with_def mgr_asha_def mgr_ravi_def)
qed

text \<open>
  C8, as the specification words it: every project manager has an entry whose count is
  the number of requests assigned to that manager's id. The workload object is keyed by
  name, so two managers with one name share one entry: with one request assigned to the
  first of two managers named Asha the view is the single entry \<open>(Asha, 1)\<close>, and the
  second Asha, who has no request, has no entry with 0.
\<close>

theorem shared_name_shares_bucket:
  "mgr_asha2 \<in> set [mgr_asha, mgr_asha2]
   \<and> assigned_count [request_with ''pending'' (Some ''pm-1'')] mgr_asha2 = 0
   \<and> (mgr_name mgr_asha2, Num (assigned_count [request_with ''pending'' (Some ''pm-1'')] mgr_asha2))
        \<notin> set (pmWorkload [request_with ''pending'' (Some ''pm-1'')] [mgr_asha, mgr_asha2])
   \<and> pmWorkload [request_with ''pending'' (Some ''pm-1'')] [mgr_asha, mgr_asha2]
        = [(''Asha'', Num 1)]"
  by (simp add: workload_defs)

subsection \<open>No requests\<close>

lemma fst_set_own: "fst ` set (set_own obj k v) = insert k (fst ` set obj)"
  by (induction obj) auto

lemma snd_set_own: "snd ` set (set_own obj k v) \<subseteq> insert v (snd ` set obj)"
  by (induction obj) auto

lemma seeded_keys:
  "fst ` set (foldl (\<lambda>workload pm. assign workload (mgr_name pm) (Num 0)) w pms)
     = fst ` set w \<union> (mgr_name ` set pms - {''__proto__''})"
  by (induction pms arbitrary: w) (auto simp: assign_def fst_set_own)

lemma seeded_values:
  "snd ` set (foldl (\<lambda>workload pm. assign workload (mgr_name pm) (Num 0)) w pms)
     \<subseteq> snd ` set w \<union> {Num 0}"
proof (induction pms arbitrary: w)
  case Nil then show ?case by auto
next
  case (Cons pm pms)
  have "snd ` set (assign w (mgr_name pm) (Num 0)) \<subseteq> snd ` set w \<union> {Num 0}"
    using snd_set_own [of w "mgr_name pm" "Num 0"] by (auto simp: assign_def)
  with Cons [of "assign w (mgr_name pm) (Num 0)"] show ?case by auto
qed

text \<open>
  C9, as the specification words it: with no requests all four views are empty for every
  list of project managers. The workload is seeded with every manager at zero before
  the requests are read, so with two managers and no request it has two entries.
\<close>

theorem idle_managers_are_listed:
  "pmWorkload [] [mgr_asha, mgr_ravi] = [(''Asha'', Num 0), (''Ravi'', Num 0)]"
  by (simp add: workload_defs)

text \<open>
  C9, amended. With no requests the request trend, the status distribution and the
  popular services are empty. The workload is empty when there is no project manager
  either; in general its names are those of the project managers (\<^verbatim>\<open>__proto__\<close>
  apart) and every count in it is 0.
\<close>

theorem empty_requests_views:
  "requestTrends month_key [] = []
   \<and> statusDistribution [] = []
   \<and> popularServices engine_order [] = []
   \<and> pmWorkload [] [] = []
   \<and> fst ` set (pmWorkload [] projectManagers) = mgr_name ` set projectManagers - {''__proto__''}
   \<and> snd ` set (pmWorkload [] projectManagers) \<subseteq> {Num 0}"
proof -
  have "Object_entries [] = []" by (simp add: Object_entries_def)
  then have "requestTrends month_key [] = []" "statusDistribution [] = []"
    "popularServices engine_order [] = []" "pmWorkload [] [] = []"
    by (simp_all add: requestTrends_def statusDistribution_def popularServices_def
                      pmWorkload_def sort_by_count_desc_def)
  moreover have "fst ` set (pmWorkload [] projectManagers)
                   = mgr_name ` set projectManagers - {''__proto__''}"
    using seeded_keys [of "[]" projectManagers] by (simp add: pmWorkload_def)
  moreover have "snd ` set (pmWorkload [] projectManagers) \<subseteq> {Num 0}"
    using seeded_values [of "[]" projectManagers] by (simp add: pmWorkload_def)
  ultimately show ?thesis by simp
qed

theorem empty_requests_views_witness:
  "requestTrends (\<lambda>s. take 7 s) [] = []
   \<and> statusDistribution [] = []
   \<and> popularServices rev [] = []
   \<and> pmWorkload [] [] = []
   \<and> fst ` set (pmWorkload [] [mgr_asha, mgr_ravi]) = {''Asha'', ''Ravi''}
   \<and> snd ` set (pmWorkload [] [mgr_asha, mgr_ravi]) \<subseteq> {Num 0}"
  using empty_requests_views [of "\<lambda>s. take 7 s" rev "[mgr_asha, mgr_ravi]"]
  by (auto simp: mgr_asha_def mgr_ravi_def)

subsection \<open>Every request is counted\<close>

text \<open>
  C10. For every list of requests the values of the status distribution are numbers
  whose sum is the length of the list; the bucket names are pairwise distinct and are
  exactly the labels of the requests. So each request is counted once, in the bucket of
  its label, whatever its status string is: a label never names a property a plain
  object inherits, since its first character is neither a lower-case letter nor an
  underscore.
\<close>

theorem status_distribution_total:
  "(\<exists>ns. map snd (statusDistribution requests) = map Num ns \<and> sum_list ns = length requests)
   \<and> distinct (map fst (statusDistribution requests))
   \<and> set (map fst (statusDistribution requests)) = set (map (\<lambda>r. label (sr_status r)) requests)"
proof -
  let ?ls = "map (\<lambda>r. label (sr_status r)) requests"
  have sd: "statusDistribution requests = Object_entries (tally ?ls)"
    by (simp add: statusDistribution_def status_counts)
  have "distinct (map fst (statusDistribution requests))"
    unfolding sd by (rule distinct_keys_Object_entries [OF distinct_keys_tally])
  moreover have "set (map fst (statusDistribution requests)) = set ?ls"
    unfolding sd by (simp add: tally_def image_image)
  ultimately show ?thesis using status_values_total [of requests] by blast
qed

theorem status_distribution_total_witness:
  "(\<exists>ns. map snd (statusDistribution [request_with ''__proto__'' None, request_with ''7'' None,
                                     request_with ''constructor'' None, request_with ''7'' None])
            = map Num ns
          \<and> sum_list ns = length [request_with ''__proto__'' None, request_with ''7'' None,
                                     request_with ''constructor'' None, request_with ''7'' None])
   \<and> statusDistribution [request_with ''__proto__'' None, request_with ''7'' None,
                          request_with ''constructor'' None, request_with ''7'' None]
        = [(''7'', Num 2), (''  Proto  '', Num 1), (''Constructor'', Num 1)]"
proof -
  have "statusDistribution [request_with ''__proto__'' None, request_with ''7'' None,
                            request_with ''constructor'' None, request_with ''7'' None]
          = [(''7'', Num 2), (''  Proto  '', Num 1), (''Constructor'', Num 1)]"
    by (simp add: analytics_defs)
  then show ?thesis
    using status_distribution_total
            [of "[request_with ''__proto__'' None, request_with ''7'' None,
                  request_with ''constructor'' None, request_with ''7'' None]"]
    by simp
qed

end
